theory Spec2Isabelle
  imports Complex_Main "HOL-Library.Word"
begin

section \<open>JavaScript values\<close>

text \<open>
  A JavaScript number is a real here, or \<open>NaN\<close> where the source divides zero by zero.
  Rounding and the infinities are not part of the model. An operation with a \<open>NaN\<close>
  operand gives \<open>NaN\<close>, and every comparison with \<open>NaN\<close> is false.
\<close>

datatype jsnum = NaN | Num real

fun lift2 :: "(real \<Rightarrow> real \<Rightarrow> real) \<Rightarrow> jsnum \<Rightarrow> jsnum \<Rightarrow> jsnum" where
  "lift2 f (Num a) (Num b) = Num (f a b)"
| "lift2 f _ _ = NaN"

definition jsadd :: "jsnum \<Rightarrow> jsnum \<Rightarrow> jsnum" where
  "jsadd = lift2 (+)"

definition jsmul :: "jsnum \<Rightarrow> jsnum \<Rightarrow> jsnum" where
  "jsmul = lift2 (*)"

definition jsmin :: "jsnum \<Rightarrow> jsnum \<Rightarrow> jsnum" where
  "jsmin = lift2 min"

fun jsdiv :: "jsnum \<Rightarrow> jsnum \<Rightarrow> jsnum" where
  "jsdiv (Num a) (Num b) = (if b = 0 then NaN else Num (a / b))"
| "jsdiv _ _ = NaN"

fun jsless :: "jsnum \<Rightarrow> jsnum \<Rightarrow> bool" where
  "jsless (Num a) (Num b) = (a < b)"
| "jsless _ _ = False"

fun isNum :: "jsnum \<Rightarrow> bool" where
  "isNum (Num a) = True"
| "isNum NaN = False"

text \<open>Truncation towards zero, and the remainder \<open>x % y\<close> for \<open>y \<noteq> 0\<close>.\<close>

definition trunc :: "real \<Rightarrow> int" where
  "trunc r = (if 0 \<le> r then \<lfloor>r\<rfloor> else \<lceil>r\<rceil>)"

definition jsrem :: "real \<Rightarrow> real \<Rightarrow> real" where
  "jsrem x y = x - y * of_int (trunc (x / y))"

text \<open>An element of a \<open>Uint8Array\<close>; a number stored there is truncated and wraps modulo 256.\<close>

type_synonym byte = "8 word"

definition toUint8 :: "real \<Rightarrow> byte" where
  "toUint8 r = word_of_int (trunc r)"

text \<open>
  Reading a property of an object literal: an own property, a property the literal
  inherits from \<open>Object.prototype\<close> (a function or an object, never a number or an
  array), or \<open>undefined\<close>.
\<close>

datatype 'a property = Own 'a | Inherited | Undefined

definition objectPrototype :: "string list" where
  "objectPrototype =
     [''constructor'', ''__defineGetter__'', ''__defineSetter__'', ''hasOwnProperty'',
      ''__lookupGetter__'', ''__lookupSetter__'', ''isPrototypeOf'',
      ''propertyIsEnumerable'', ''toString'', ''valueOf'', ''__proto__'',
      ''toLocaleString'']"

definition getProp :: "(string \<times> 'a) list \<Rightarrow> string \<Rightarrow> 'a property" where
  "getProp obj name =
     (case map_of obj name of
        Some v \<Rightarrow> Own v
      | None \<Rightarrow> if name \<in> set objectPrototype then Inherited else Undefined)"

datatype error = TypeError | SyntaxError

section \<open>Visualizer\<close>

text \<open>
  The source file holds two revisions of the component. \<open>VisA\<close> is the first
  (gain 2.5, intensity scaled by 3 and capped at 1), \<open>VisB\<close> the second (gain 1.5,
  intensity the plain average over 255).
\<close>

datatype vis_revision = VisA | VisB

text \<open>
  The viewport is \<open>window.innerWidth\<close> by \<open>window.innerHeight\<close>, whole numbers of
  pixels. A particle's \<open>color\<close> is the hue of its \<open>hsl\<close> color. Calls on the canvas
  are not part of the model: a draw function gives the geometry it computes.
\<close>

record dimensions =
  width :: nat
  height :: nat

record particle =
  pos_x :: jsnum
  pos_y :: jsnum
  size_p :: real
  speedX :: real
  speedY :: real
  color :: real

record visualizer =
  activeVisualizer :: string
  dims :: dimensions
  particlesRef :: "particle list"
  colorIndex :: real

subsection \<open>getColor\<close>

definition colorSchemes :: "(string \<times> string list) list" where
  "colorSchemes =
     [(''bars'', [''#9b87f5'', ''#7E69AB'', ''#6E59A5'', ''#D6BCFA'',
                  ''#D946EF'', ''#F97316'', ''#0EA5E9'']),
      (''circular'', [''#D946EF'', ''#9b87f5'', ''#0EA5E9'', ''#F97316'',
                      ''#7E69AB'', ''#D6BCFA'', ''#6E59A5'']),
      (''wave'', [''#0EA5E9'', ''#9b87f5'', ''#D946EF'', ''#7E69AB'',
                  ''#F97316'', ''#D6BCFA'', ''#6E59A5'']),
      (''particles'', [''#D6BCFA'', ''#9b87f5'', ''#D946EF'', ''#0EA5E9'',
                       ''#F97316'', ''#7E69AB'', ''#6E59A5''])]"

text \<open>
  \<open>colors[colorPosition % colors.length]\<close> for an array \<open>colors\<close>. With a count of 0
  the position is not a number and the read gives \<open>undefined\<close>, here \<open>None\<close>.
\<close>

definition pickColor :: "string list \<Rightarrow> nat \<Rightarrow> nat \<Rightarrow> string option" where
  "pickColor colors index count =
     (if count = 0 \<or> colors = [] then None
      else let colorPosition = nat \<lfloor>(real index / real count) * real (length colors)\<rfloor>
           in Some (colors ! (colorPosition mod length colors)))"

text \<open>
  \<open>colorSchemes[activeVisualizer] || colorSchemes.bars\<close>: an inherited property is
  truthy, so it is taken as \<open>colors\<close>; it has no element at any index and the result
  is \<open>undefined\<close>.
\<close>

definition getColor :: "string \<Rightarrow> nat \<Rightarrow> nat \<Rightarrow> string option" where
  "getColor mode index count =
     (case getProp colorSchemes mode of
        Own colors \<Rightarrow> pickColor colors index count
      | Inherited \<Rightarrow> None
      | Undefined \<Rightarrow>
          (case getProp colorSchemes ''bars'' of
             Own colors \<Rightarrow> pickColor colors index count
           | _ \<Rightarrow> None))"

subsection \<open>drawBars\<close>

definition gain :: "vis_revision \<Rightarrow> real" where
  "gain v = (case v of VisA \<Rightarrow> 2.5 | VisB \<Rightarrow> 1.5)"

definition amplifiedValue :: "vis_revision \<Rightarrow> byte \<Rightarrow> real" where
  "amplifiedValue v m = min 255 (real (unat m) * gain v)"

record bar =
  bar_x :: real
  bar_y :: real
  bar_width :: real
  bar_height :: real
  bar_radius :: real
  bar_color :: string

text \<open>
  One pass of the loop body for bin \<open>i\<close>. \<open>addColorStop\<close> raises a \<open>SyntaxError\<close>
  when the color is \<open>undefined\<close>.
\<close>

definition drawBar :: "vis_revision \<Rightarrow> string \<Rightarrow> dimensions \<Rightarrow> byte list \<Rightarrow> nat \<Rightarrow> error + bar" where
  "drawBar v mode d data i =
     (let barWidth = real (width d) / real (length data);
          barHeight = (amplifiedValue v (data ! i) / 255) * real (height d) * 0.8;
          x = real i * barWidth + real (width d) / 2 - (real (length data) * barWidth) / 2;
          y = real (height d) - barHeight;
          radius = (if barWidth * 0.5 > 10 then 10 else barWidth * 0.5)
      in case getColor mode i (length data) of
           None \<Rightarrow> Inl SyntaxError
         | Some c \<Rightarrow>
             Inr \<lparr>bar_x = x, bar_y = y, bar_width = barWidth - 1, bar_height = barHeight,
                  bar_radius = radius, bar_color = c\<rparr>)"

fun drawBarsLoop :: "vis_revision \<Rightarrow> string \<Rightarrow> dimensions \<Rightarrow> byte list \<Rightarrow> nat list \<Rightarrow> error + bar list" where
  "drawBarsLoop v mode d data [] = Inr []"
| "drawBarsLoop v mode d data (i # is) =
     (case drawBar v mode d data i of
        Inl e \<Rightarrow> Inl e
      | Inr b \<Rightarrow>
          (case drawBarsLoop v mode d data is of
             Inl e \<Rightarrow> Inl e
           | Inr bs \<Rightarrow> Inr (b # bs)))"

definition drawBars :: "vis_revision \<Rightarrow> visualizer \<Rightarrow> byte list \<Rightarrow> visualizer \<times> (error + bar list)" where
  "drawBars v st data =
     (st\<lparr>colorIndex := jsrem (colorIndex st + 0.1) 360\<rparr>,
      drawBarsLoop v (activeVisualizer st) (dims st) data [0..<length data])"

subsection \<open>drawCircular and drawWave\<close>

record ray =
  ray_x :: real
  ray_y :: real
  ray_dot :: real
  ray_color :: "string option"

definition drawRay :: "vis_revision \<Rightarrow> string \<Rightarrow> dimensions \<Rightarrow> byte list \<Rightarrow> nat \<Rightarrow> ray" where
  "drawRay v mode d data i =
     (let centerX = real (width d) / 2;
          centerY = real (height d) / 2;
          maxRadius = real (min (width d) (height d)) * 0.4;
          angle = (real i / real (length data)) * pi * 2;
          amplitude = (amplifiedValue v (data ! i) / 255) * maxRadius
      in \<lparr>ray_x = centerX + cos angle * amplitude,
          ray_y = centerY + sin angle * amplitude,
          ray_dot = max 2 ((amplifiedValue v (data ! i) / 255) * 8),
          ray_color = getColor mode i (length data)\<rparr>)"

definition drawCircular :: "vis_revision \<Rightarrow> visualizer \<Rightarrow> byte list \<Rightarrow> ray list" where
  "drawCircular v st data =
     map (drawRay v (activeVisualizer st) (dims st) data) [0..<length data]"

definition wavePoint :: "vis_revision \<Rightarrow> visualizer \<Rightarrow> byte list \<Rightarrow> nat \<Rightarrow> real \<times> real" where
  "wavePoint v st data i =
     ((real i / real (length data)) * real (width (dims st)),
      real (height (dims st)) / 2
        + ((amplifiedValue v (data ! i) / 255) * real (height (dims st)) * 0.4)
          * sin (real i * 0.1 + colorIndex st))"

definition drawWave :: "vis_revision \<Rightarrow> visualizer \<Rightarrow> byte list \<Rightarrow> visualizer \<times> (real \<times> real) list" where
  "drawWave v st data =
     (st\<lparr>colorIndex := jsrem (colorIndex st + 0.05) (pi * 2)\<rparr>,
      map (wavePoint v st data) [0..<length data])"

subsection \<open>drawParticles\<close>

text \<open>
  \<open>data.reduce((sum, value) => sum + value, 0) / data.length\<close>: on an empty snapshot
  this is 0 / 0, not a number.
\<close>

definition averageFrequency :: "byte list \<Rightarrow> jsnum" where
  "averageFrequency data = jsdiv (Num (real (sum_list (map unat data)))) (Num (real (length data)))"

definition intensity :: "vis_revision \<Rightarrow> byte list \<Rightarrow> jsnum" where
  "intensity v data =
     (case v of
        VisA \<Rightarrow> jsmin (Num 1) (jsmul (jsdiv (averageFrequency data) (Num 255)) (Num 3))
      | VisB \<Rightarrow> jsdiv (averageFrequency data) (Num 255))"

definition reactivity :: "vis_revision \<Rightarrow> real" where
  "reactivity v = (case v of VisA \<Rightarrow> 5 | VisB \<Rightarrow> 3)"

definition sizeFactor :: "vis_revision \<Rightarrow> real" where
  "sizeFactor v = (case v of VisA \<Rightarrow> 3 | VisB \<Rightarrow> 2)"

text \<open>\<open>if (c > bound) c = 0; if (c < 0) c = bound;\<close>\<close>

definition wrap :: "nat \<Rightarrow> jsnum \<Rightarrow> jsnum" where
  "wrap bound c =
     (let c1 = (if jsless (Num (real bound)) c then Num 0 else c)
      in if jsless c1 (Num 0) then Num (real bound) else c1)"

definition moveParticle :: "vis_revision \<Rightarrow> dimensions \<Rightarrow> jsnum \<Rightarrow> particle \<Rightarrow> particle" where
  "moveParticle v d inten p =
     (let factor = jsadd (Num 1) (jsmul inten (Num (reactivity v)));
          x1 = jsadd (pos_x p) (jsmul (Num (speedX p)) factor);
          y1 = jsadd (pos_y p) (jsmul (Num (speedY p)) factor)
      in p\<lparr>pos_x := wrap (width d) x1, pos_y := wrap (height d) y1\<rparr>)"

record disc =
  disc_x :: jsnum
  disc_y :: jsnum
  disc_radius :: jsnum
  disc_alpha :: jsnum

record link =
  link_x1 :: jsnum
  link_y1 :: jsnum
  link_x2 :: jsnum
  link_y2 :: jsnum
  link_alpha :: jsnum

definition drawDisc :: "vis_revision \<Rightarrow> jsnum \<Rightarrow> particle \<Rightarrow> disc" where
  "drawDisc v inten p =
     \<lparr>disc_x = pos_x p, disc_y = pos_y p,
      disc_radius = jsmul (Num (size_p p)) (jsadd (Num 1) (jsmul inten (Num (sizeFactor v)))),
      disc_alpha = jsadd (Num 0.7) (jsmul inten (Num 0.3))\<rparr>"

definition distance :: "particle \<Rightarrow> particle \<Rightarrow> jsnum" where
  "distance p p2 =
     (let dx = lift2 (-) (pos_x p) (pos_x p2);
          dy = lift2 (-) (pos_y p) (pos_y p2)
      in case jsadd (jsmul dx dx) (jsmul dy dy) of NaN \<Rightarrow> NaN | Num q \<Rightarrow> Num (sqrt q))"

text \<open>The inner loop: the particles after \<open>p\<close> in the array have not moved yet in this frame.\<close>

fun connect :: "jsnum \<Rightarrow> particle \<Rightarrow> particle list \<Rightarrow> link list" where
  "connect inten p [] = []"
| "connect inten p (p2 # ps) =
     (let reach = jsmul (Num 100) (jsadd (Num 1) inten)
      in if jsless (distance p p2) reach
         then \<lparr>link_x1 = pos_x p, link_y1 = pos_y p, link_x2 = pos_x p2, link_y2 = pos_y p2,
               link_alpha = jsmul (lift2 (-) (Num 1) (jsdiv (distance p p2) reach)) (Num 0.5)\<rparr>
              # connect inten p ps
         else connect inten p ps)"

fun particlesLoop :: "vis_revision \<Rightarrow> dimensions \<Rightarrow> jsnum \<Rightarrow> particle list \<Rightarrow> particle list \<times> disc list \<times> link list" where
  "particlesLoop v d inten [] = ([], [], [])"
| "particlesLoop v d inten (p # ps) =
     (let p' = moveParticle v d inten p;
          (ps', discs, links) = particlesLoop v d inten ps
      in (p' # ps', drawDisc v inten p' # discs, connect inten p' ps @ links))"

definition drawParticles :: "vis_revision \<Rightarrow> visualizer \<Rightarrow> byte list \<Rightarrow> visualizer \<times> disc list \<times> link list" where
  "drawParticles v st data =
     (let (ps', discs, links) = particlesLoop v (dims st) (intensity v data) (particlesRef st)
      in (st\<lparr>particlesRef := ps'\<rparr>, discs, links))"

subsection \<open>draw and the component's effects\<close>

datatype frame =
    Skipped
  | BarsFrame "bar list"
  | CircularFrame "ray list"
  | WaveFrame "(real \<times> real) list"
  | ParticlesFrame "disc list" "link list"

text \<open>
  One call of \<open>draw\<close> with the canvas mounted: \<open>analyserData\<close> is \<open>None\<close> for
  \<open>null\<close>. The result is the component's state after the call and the frame drawn, or
  the exception that ended the call.
\<close>

definition draw :: "vis_revision \<Rightarrow> visualizer \<Rightarrow> byte list option \<Rightarrow> visualizer \<times> (error + frame)" where
  "draw v st analyserData =
     (case analyserData of
        None \<Rightarrow> (st, Inr Skipped)
      | Some data \<Rightarrow>
          if activeVisualizer st = ''bars'' then
            (case drawBars v st data of
               (st', Inl e) \<Rightarrow> (st', Inl e)
             | (st', Inr bs) \<Rightarrow> (st', Inr (BarsFrame bs)))
          else if activeVisualizer st = ''circular'' then
            (st, Inr (CircularFrame (drawCircular v st data)))
          else if activeVisualizer st = ''wave'' then
            (case drawWave v st data of (st', pts) \<Rightarrow> (st', Inr (WaveFrame pts)))
          else if activeVisualizer st = ''particles'' then
            (case drawParticles v st data of
               (st', discs, links) \<Rightarrow> (st', Inr (ParticlesFrame discs links)))
          else
            (case drawBars v st data of
               (st', Inl e) \<Rightarrow> (st', Inl e)
             | (st', Inr bs) \<Rightarrow> (st', Inr (BarsFrame bs))))"

text \<open>
  The population is rebuilt from \<open>Math.random()\<close>, here a sequence \<open>rnd\<close> of numbers
  of which each particle takes six.
\<close>

definition newParticle :: "(nat \<Rightarrow> real) \<Rightarrow> dimensions \<Rightarrow> nat \<Rightarrow> particle" where
  "newParticle rnd d i =
     \<lparr>pos_x = Num (rnd (6 * i) * real (width d)),
      pos_y = Num (rnd (6 * i + 1) * real (height d)),
      size_p = rnd (6 * i + 2) * 5 + 2,
      speedX = rnd (6 * i + 3) * 2 - 1,
      speedY = rnd (6 * i + 4) * 2 - 1,
      color = rnd (6 * i + 5) * 60 + 250\<rparr>"

definition particlesEffect :: "(nat \<Rightarrow> real) \<Rightarrow> visualizer \<Rightarrow> visualizer" where
  "particlesEffect rnd st =
     (if activeVisualizer st = ''particles''
      then st\<lparr>particlesRef := map (newParticle rnd (dims st)) [0..<100]\<rparr>
      else st)"

text \<open>The effect runs again when the mode changes and after every resize.\<close>

definition setActiveVisualizer :: "(nat \<Rightarrow> real) \<Rightarrow> string \<Rightarrow> visualizer \<Rightarrow> visualizer" where
  "setActiveVisualizer rnd mode st =
     (if mode = activeVisualizer st then st
      else particlesEffect rnd (st\<lparr>activeVisualizer := mode\<rparr>))"

definition handleResize :: "(nat \<Rightarrow> real) \<Rightarrow> dimensions \<Rightarrow> visualizer \<Rightarrow> visualizer" where
  "handleResize rnd d st = particlesEffect rnd (st\<lparr>dims := d\<rparr>)"

text \<open>Stepping the field once for each snapshot of a list, oldest first.\<close>

fun stepField :: "vis_revision \<Rightarrow> visualizer \<Rightarrow> byte list list \<Rightarrow> visualizer" where
  "stepField v st [] = st"
| "stepField v st (data # rest) = stepField v (fst (drawParticles v st data)) rest"

section \<open>AudioEngine\<close>

text \<open>
  The source holds two revisions of the component. \<open>EngA\<close> is the first (audio set up
  on mount, peak level 0.8, the analysis buffer amplified each frame and boosted on
  every note), \<open>EngB\<close> the second (audio set up by the first interaction, peak
  level 0.3).
\<close>

datatype eng_revision = EngA | EngB

definition NOTES :: "(string \<times> real) list" where
  "NOTES =
     [(''a'', 261.63), (''s'', 293.66), (''d'', 329.63), (''f'', 349.23), (''g'', 392.00),
      (''h'', 440.00), (''j'', 493.88), (''k'', 523.25), (''l'', 587.33)]"

text \<open>\<open>!NOTES[key]\<close> is false for a non-zero number and for an inherited property.\<close>

fun truthy :: "real property \<Rightarrow> bool" where
  "truthy (Own f) = (f \<noteq> 0)"
| "truthy Inherited = True"
| "truthy Undefined = False"

text \<open>\<open>toLowerCase\<close> on the ASCII letters: a capital gets bit 5 (32) set.\<close>

fun lowerChar :: "char \<Rightarrow> char" where
  "lowerChar (Char b0 b1 b2 b3 b4 b5 b6 b7) =
     (let n = (of_char (Char b0 b1 b2 b3 b4 b5 b6 b7) :: nat)
      in if 65 \<le> n \<and> n \<le> 90 then Char b0 b1 b2 b3 b4 True b6 b7
         else Char b0 b1 b2 b3 b4 b5 b6 b7)"

definition toLowerCase :: "string \<Rightarrow> string" where
  "toLowerCase s = map lowerChar s"

record oscillatorNode =
  frequency :: real
  osc_started :: bool
  osc_stopped :: bool
  osc_out :: "nat option"

datatype automation = SetValueAtTime real real | LinearRampToValueAtTime real real

record gainNode =
  gain_events :: "automation list"
  gain_out :: bool

datatype ctx_state = Suspended | Running

text \<open>
  The component's state. \<open>audioContext\<close> is \<open>None\<close> while \<open>audioContextRef\<close> and
  \<open>analyserRef\<close> are null (\<open>initAudio\<close> sets both). Audio nodes live in \<open>oscNodes\<close>
  and \<open>gainNodes\<close> and the two maps hold their positions. \<open>timers\<close> are the pending
  \<open>setTimeout\<close> callbacks with the time they are due and the key they release;
  \<open>clock\<close> counts milliseconds and is the one clock of the model, for the timers and
  for the audio context. \<open>published\<close> is the buffer last handed to
  \<open>onAudioProcess\<close>.

  \<open>activeKeys\<close> is React state. A handler reads the value of the render it was created
  in; the model lets every handler read the value the previous handler wrote, that is,
  the component has rendered again and registered its listeners anew between two events.
\<close>

record engine =
  audioContext :: "ctx_state option"
  oscNodes :: "oscillatorNode list"
  gainNodes :: "gainNode list"
  oscillatorsRef :: "string \<rightharpoonup> nat"
  gainsRef :: "string \<rightharpoonup> nat"
  activeKeys :: "string set"
  dataArrayRef :: "byte list option"
  frameRef :: bool
  timers :: "(nat \<times> string) list"
  clock :: nat
  published :: "byte list option"

definition currentTime :: "engine \<Rightarrow> real" where
  "currentTime st = real (clock st) / 1000"

definition frequencyBinCount :: nat where
  "frequencyBinCount = 256 div 2"

definition peak :: "eng_revision \<Rightarrow> real" where
  "peak v = (case v of EngA \<Rightarrow> 0.8 | EngB \<Rightarrow> 0.3)"

subsection \<open>Set-up and the frame loop\<close>

definition initAudio :: "eng_revision \<Rightarrow> (nat \<Rightarrow> real) \<Rightarrow> ctx_state \<Rightarrow> engine \<Rightarrow> engine" where
  "initAudio v rnd cs st =
     (case v of
        EngA \<Rightarrow>
          (let buf = map (\<lambda>i. toUint8 (rnd i * 50)) [0..<frequencyBinCount]
           in st\<lparr>audioContext := Some cs, dataArrayRef := Some buf, published := Some buf\<rparr>)
      | EngB \<Rightarrow>
          st\<lparr>audioContext := Some cs, dataArrayRef := Some (replicate frequencyBinCount 0)\<rparr>)"

definition unmounted :: engine where
  "unmounted =
     \<lparr>audioContext = None, oscNodes = [], gainNodes = [], oscillatorsRef = Map.empty,
      gainsRef = Map.empty, activeKeys = {}, dataArrayRef = None, frameRef = False,
      timers = [], clock = 0, published = None\<rparr>"

text \<open>
  The effects on mount. The frame loop starts only when the audio context exists by
  then, which is the case in \<open>EngA\<close> alone.
\<close>

definition mount :: "eng_revision \<Rightarrow> (nat \<Rightarrow> real) \<Rightarrow> ctx_state \<Rightarrow> engine" where
  "mount v rnd cs =
     (case v of
        EngA \<Rightarrow> (initAudio EngA rnd cs unmounted)\<lparr>frameRef := True\<rparr>
      | EngB \<Rightarrow> unmounted)"

definition handleFirstInteraction :: "eng_revision \<Rightarrow> (nat \<Rightarrow> real) \<Rightarrow> ctx_state \<Rightarrow> engine \<Rightarrow> engine" where
  "handleFirstInteraction v rnd cs st =
     (case v of
        EngA \<Rightarrow> (if audioContext st = Some Suspended then st\<lparr>audioContext := Some Running\<rparr> else st)
      | EngB \<Rightarrow> (if audioContext st = None then initAudio EngB rnd cs st else st))"

text \<open>The amplification \<open>EngA\<close> writes back into the \<open>Uint8Array\<close>.\<close>

definition amplify :: "byte \<Rightarrow> byte" where
  "amplify m = toUint8 (min 255 (real (unat m) * 1.5))"

text \<open>
  One run of \<open>updateAnalyser\<close>; \<open>raw\<close> is what \<open>getByteFrequencyData\<close> copies into
  the buffer.
\<close>

definition updateAnalyser :: "eng_revision \<Rightarrow> byte list \<Rightarrow> engine \<Rightarrow> engine" where
  "updateAnalyser v raw st =
     (case (audioContext st, dataArrayRef st) of
        (Some cs, Some buf) \<Rightarrow>
          (let filled = take (length buf) raw @ drop (length raw) buf;
               buf' = (case v of EngA \<Rightarrow> map amplify filled | EngB \<Rightarrow> filled)
           in st\<lparr>dataArrayRef := Some buf', published := Some buf'\<rparr>)
      | _ \<Rightarrow> st)"

subsection \<open>handleKeyDown\<close>

text \<open>
  The boost of \<open>EngA\<close>: ten slots from \<open>Math.floor(NOTES[key] % length)\<close> on, wrapping
  at the end of the buffer. On an empty buffer the index is not a number and nothing is written.
\<close>

definition boostIndex :: "real \<Rightarrow> nat \<Rightarrow> nat" where
  "boostIndex f n = nat \<lfloor>jsrem f (real n)\<rfloor>"

definition boost :: "real \<Rightarrow> byte list \<Rightarrow> byte list" where
  "boost f buf =
     (if buf = [] then buf
      else fold (\<lambda>i b. b[(boostIndex f (length buf) + i) mod length buf := 230]) [0..<10] buf)"

text \<open>
  For a key that only names an inherited property, \<open>NOTES[key]\<close> is a function or an
  object: the guard lets it pass, and \<open>setValueAtTime\<close> raises a \<open>TypeError\<close> for a
  value that is no finite number. The two nodes created before that are left unconnected
  and the result is the error alone.
\<close>

definition handleKeyDown :: "eng_revision \<Rightarrow> engine \<Rightarrow> string \<Rightarrow> error + engine" where
  "handleKeyDown v st ekey =
     (let key = toLowerCase ekey in
      if key \<in> activeKeys st \<or> \<not> truthy (getProp NOTES key) then Inr st
      else
        (case audioContext st of
           None \<Rightarrow> Inr st
         | Some cs \<Rightarrow>
             (case getProp NOTES key of
                Own f \<Rightarrow>
                  (let oscillator = \<lparr>frequency = f, osc_started = True, osc_stopped = False,
                                     osc_out = Some (length (gainNodes st))\<rparr>;
                       gainNode = \<lparr>gain_events =
                                     [SetValueAtTime 0 (currentTime st),
                                      LinearRampToValueAtTime (peak v) (currentTime st + 0.1)],
                                   gain_out = True\<rparr>;
                       st1 = st\<lparr>audioContext := Some Running,
                                oscNodes := oscNodes st @ [oscillator],
                                gainNodes := gainNodes st @ [gainNode],
                                oscillatorsRef := (oscillatorsRef st)(key \<mapsto> length (oscNodes st)),
                                gainsRef := (gainsRef st)(key \<mapsto> length (gainNodes st)),
                                activeKeys := insert key (activeKeys st)\<rparr>
                   in case (v, dataArrayRef st1) of
                        (EngA, Some buf) \<Rightarrow>
                          Inr (st1\<lparr>dataArrayRef := Some (boost f buf),
                                   published := Some (boost f buf)\<rparr>)
                      | _ \<Rightarrow> Inr st1)
              | _ \<Rightarrow> Inl TypeError)))"

subsection \<open>handleKeyUp and the release timer\<close>

definition handleKeyUp :: "eng_revision \<Rightarrow> engine \<Rightarrow> string \<Rightarrow> engine" where
  "handleKeyUp v st ekey =
     (let key = toLowerCase ekey in
      if \<not> truthy (getProp NOTES key) then st
      else if audioContext st \<noteq> None \<and> oscillatorsRef st key \<noteq> None then
        (case gainsRef st key of
           None \<Rightarrow> st
         | Some g \<Rightarrow>
             st\<lparr>gainNodes :=
                  (gainNodes st)[g := (gainNodes st ! g)
                     \<lparr>gain_events := gain_events (gainNodes st ! g)
                        @ [LinearRampToValueAtTime 0 (currentTime st + 0.1)]\<rparr>],
                timers := timers st @ [(clock st + 100, key)]\<rparr>)
      else st)"

text \<open>The body of the \<open>setTimeout\<close> callback.\<close>

definition releaseVoice :: "string \<Rightarrow> engine \<Rightarrow> engine" where
  "releaseVoice key st =
     (let nodes = (case oscillatorsRef st key of
                     None \<Rightarrow> oscNodes st
                   | Some ob \<Rightarrow> (oscNodes st)[ob := (oscNodes st ! ob)\<lparr>osc_stopped := True\<rparr>])
      in st\<lparr>oscNodes := nodes,
            oscillatorsRef := (oscillatorsRef st)(key := None),
            gainsRef := (gainsRef st)(key := None),
            activeKeys := activeKeys st - {key}\<rparr>)"

text \<open>
  \<open>d\<close> milliseconds pass with no input: the timers due by then run, oldest first.
\<close>

definition advance :: "nat \<Rightarrow> engine \<Rightarrow> engine" where
  "advance d st =
     (let t = clock st + d;
          due = filter (\<lambda>(tm, key). tm \<le> t) (timers st);
          rest = filter (\<lambda>(tm, key). \<not> tm \<le> t) (timers st)
      in fold (\<lambda>(tm, key). releaseVoice key) due (st\<lparr>clock := t, timers := rest\<rparr>))"

section \<open>Notions used in the properties\<close>

text \<open>A coordinate that is a number within the closed range from 0 to a bound.\<close>

fun between :: "jsnum \<Rightarrow> real \<Rightarrow> bool" where
  "between (Num a) b = (0 \<le> a \<and> a \<le> b)"
| "between NaN b = False"

text \<open>A field of one particle on the left edge of an 800 by 600 viewport, moving left.\<close>

definition edgeParticle :: particle where
  "edgeParticle = \<lparr>pos_x = Num 0, pos_y = Num 300, size_p = 2, speedX = -1, speedY = 0, color = 250\<rparr>"

definition edgeField :: visualizer where
  "edgeField = \<lparr>activeVisualizer = ''particles'', dims = \<lparr>width = 800, height = 600\<rparr>,
                particlesRef = [edgeParticle], colorIndex = 0\<rparr>"

text \<open>
  The two maps and the set of active keys hold the same keys. The component starts in
  such a state and every handler keeps it.
\<close>

definition registryOk :: "engine \<Rightarrow> bool" where
  "registryOk st = (dom (oscillatorsRef st) = activeKeys st \<and> dom (gainsRef st) = activeKeys st)"

text \<open>
  Further facts every handler keeps: the positions in the two maps are positions of
  existing nodes, the analysis buffer exists exactly when the audio context does and
  then has one slot for each frequency bin, and a key is active only when the audio
  context exists.
\<close>

definition buffersOk :: "engine \<Rightarrow> bool" where
  "buffersOk st =
     (map_option length (dataArrayRef st)
        = (if audioContext st = None then None else Some frequencyBinCount))"

definition nodesOk :: "engine \<Rightarrow> bool" where
  "nodesOk st =
     (ran (oscillatorsRef st) \<subseteq> {..<length (oscNodes st)}
      \<and> ran (gainsRef st) \<subseteq> {..<length (gainNodes st)})"

definition contextOk :: "engine \<Rightarrow> bool" where
  "contextOk st = (activeKeys st = {} \<or> audioContext st \<noteq> None)"

definition engineOk :: "engine \<Rightarrow> bool" where
  "engineOk st = (registryOk st \<and> nodesOk st \<and> buffersOk st \<and> contextOk st)"

text \<open>A key with no entry left in the registry, and an oscillator that has been stopped.\<close>

definition released :: "string \<Rightarrow> engine \<Rightarrow> bool" where
  "released key st =
     (oscillatorsRef st key = None \<and> gainsRef st key = None \<and> key \<notin> activeKeys st)"

definition stoppedAt :: "nat \<Rightarrow> engine \<Rightarrow> bool" where
  "stoppedAt ob st = (ob < length (oscNodes st) \<and> osc_stopped (oscNodes st ! ob))"

text \<open>
  Engines to run the handlers on: the second revision after its first interaction, the
  same while the key \<open>a\<close> is held, and the first revision right after mount.
\<close>

definition startedB :: engine where
  "startedB = handleFirstInteraction EngB (\<lambda>i. 0) Running (mount EngB (\<lambda>i. 0) Running)"

definition holdingA :: engine where
  "holdingA = (case handleKeyDown EngB startedB ''a'' of Inr s \<Rightarrow> s | Inl e \<Rightarrow> startedB)"

definition startedA :: engine where
  "startedA = mount EngA (\<lambda>i. 0) Running"

section \<open>Properties of the visualizer\<close>

subsection \<open>Amplification and bars\<close>

lemma unat_byte_le: "unat (m :: byte) \<le> 255"
proof -
  have "unat m < 2 ^ LENGTH(8)" by (rule unsigned_less)
  then show ?thesis by simp
qed

lemma amplifiedValue_range: "0 \<le> amplifiedValue v m \<and> amplifiedValue v m \<le> 255"
  by (cases v) (simp_all add: amplifiedValue_def gain_def del: of_nat_unat)

lemma amplifiedValue_mono: "m1 \<le> m2 \<Longrightarrow> amplifiedValue v m1 \<le> amplifiedValue v m2"
proof -
  assume "m1 \<le> m2"
  then have le: "real (unat m1) \<le> real (unat m2)" by (simp add: word_le_nat_alt del: of_nat_unat)
  have "0 \<le> gain v" by (cases v) (simp_all add: gain_def)
  with le have "real (unat m1) * gain v \<le> real (unat m2) * gain v"
    by (rule mult_right_mono)
  then show ?thesis unfolding amplifiedValue_def by (simp add: min_le_iff_disj del: of_nat_unat)
qed

lemma unat_toUint8: "0 \<le> r \<Longrightarrow> r \<le> 255 \<Longrightarrow> unat (toUint8 r) = nat \<lfloor>r\<rfloor>"
proof -
  assume a: "0 \<le> r" "r \<le> 255"
  then have "\<lfloor>r\<rfloor> \<le> 255" by (simp add: floor_le_iff)
  moreover have f0: "0 \<le> \<lfloor>r\<rfloor>" using a by simp
  ultimately have "nat \<lfloor>r\<rfloor> < 256" by linarith
  then have "nat \<lfloor>r\<rfloor> mod 2 ^ LENGTH(8) = nat \<lfloor>r\<rfloor>" by simp
  then have u: "unat (word_of_nat (nat \<lfloor>r\<rfloor>) :: byte) = nat \<lfloor>r\<rfloor>"
    by (simp only: unat_of_nat)
  have w: "(word_of_int \<lfloor>r\<rfloor> :: byte) = word_of_nat (nat \<lfloor>r\<rfloor>)"
    using f0 by (rule word_of_int_nat)
  have "toUint8 r = word_of_int \<lfloor>r\<rfloor>"
    using a by (simp only: toUint8_def trunc_def if_True)
  then show ?thesis by (simp only: w u)
qed

lemma unat_amplify: "unat (amplify m) = nat \<lfloor>min 255 (real (unat m) * 1.5)\<rfloor>"
  unfolding amplify_def by (rule unat_toUint8) (simp_all del: of_nat_unat)

lemma amplify_mono: "m1 \<le> m2 \<Longrightarrow> amplify m1 \<le> amplify m2"
proof -
  assume "m1 \<le> m2"
  then have "real (unat m1) * 1.5 \<le> real (unat m2) * 1.5"
    by (simp add: word_le_nat_alt del: of_nat_unat)
  then have "min 255 (real (unat m1) * 1.5) \<le> min 255 (real (unat m2) * 1.5)"
    by (simp add: min_le_iff_disj del: of_nat_unat)
  then have "nat \<lfloor>min 255 (real (unat m1) * 1.5)\<rfloor> \<le> nat \<lfloor>min 255 (real (unat m2) * 1.5)\<rfloor>"
    by (intro nat_mono floor_mono)
  then show ?thesis by (simp only: word_le_nat_alt unat_amplify)
qed

text \<open>
  Claim C4. The amplification is bounded and monotonic: for every raw magnitude \<open>m\<close> of
  a bin, \<open>min(255, m * k)\<close> lies in [0, 255] and does not decrease when \<open>m\<close> grows.
  This holds for the gain of either revision of the visualizer, and also for the value
  the audio engine writes back into its byte buffer with gain 1.5.
\<close>

theorem amplification_bounded_monotonic:
  "0 \<le> amplifiedValue v m \<and> amplifiedValue v m \<le> 255
   \<and> (m1 \<le> m2 \<longrightarrow> amplifiedValue v m1 \<le> amplifiedValue v m2)
   \<and> (m1 \<le> m2 \<longrightarrow> amplify m1 \<le> amplify m2)"
proof (intro conjI impI)
  show "0 \<le> amplifiedValue v m" by (rule amplifiedValue_range [THEN conjunct1])
  show "amplifiedValue v m \<le> 255" by (rule amplifiedValue_range [THEN conjunct2])
  show "amplifiedValue v m1 \<le> amplifiedValue v m2" if "m1 \<le> m2"
    using that by (rule amplifiedValue_mono)
  show "amplify m1 \<le> amplify m2" if "m1 \<le> m2"
    using that by (rule amplify_mono)
qed

theorem amplification_bounded_monotonic_witness:
  "(10 :: byte) \<le> 200 \<and> amplifiedValue VisA 10 \<le> amplifiedValue VisA 200
   \<and> amplify 10 \<le> amplify 200 \<and> 0 \<le> amplifiedValue VisA 10 \<and> amplifiedValue VisA 10 \<le> 255"
  using amplification_bounded_monotonic [of VisA 10 10 200] by simp

lemma getColor_bars: "0 < n \<Longrightarrow> \<exists>c. getColor ''bars'' i n = Some c"
  by (simp add: getColor_def getProp_def colorSchemes_def pickColor_def Let_def)

lemma drawBar_bars:
  assumes "data \<noteq> []"
  shows "\<exists>b. drawBar v ''bars'' d data i = Inr b
             \<and> bar_height b = (amplifiedValue v (data ! i) / 255) * real (height d) * 0.8"
proof -
  from assms have "0 < length data" by simp
  then obtain c where "getColor ''bars'' i (length data) = Some c"
    using getColor_bars by blast
  then show ?thesis by (simp add: drawBar_def Let_def)
qed

lemma drawBarsLoop_bars:
  assumes "data \<noteq> []"
  shows "\<exists>bs. drawBarsLoop v ''bars'' d data idxs = Inr bs \<and> length bs = length idxs
              \<and> (\<forall>k < length idxs. bar_height (bs ! k)
                     = (amplifiedValue v (data ! (idxs ! k)) / 255) * real (height d) * 0.8)"
proof (induction idxs)
  case Nil
  then show ?case by simp
next
  case (Cons i idxs)
  then obtain bs where bs: "drawBarsLoop v ''bars'' d data idxs = Inr bs" "length bs = length idxs"
    "\<forall>k < length idxs. bar_height (bs ! k)
        = (amplifiedValue v (data ! (idxs ! k)) / 255) * real (height d) * 0.8"
    by blast
  obtain b where b: "drawBar v ''bars'' d data i = Inr b"
    "bar_height b = (amplifiedValue v (data ! i) / 255) * real (height d) * 0.8"
    using drawBar_bars [OF assms] by blast
  have "\<forall>k < length (i # idxs). bar_height ((b # bs) ! k)
          = (amplifiedValue v (data ! ((i # idxs) ! k)) / 255) * real (height d) * 0.8"
    using b(2) bs(3) by (simp add: nth_Cons split: nat.split)
  then show ?case using b(1) bs(1,2) by simp
qed

text \<open>
  Claim C5. A snapshot whose bins are all 200, drawn as bars with gain 1.5: every bin is
  amplified to 255 and every bar has the maximum height, 80% of the viewport height.
\<close>

theorem bars_all_200_maximum_height:
  assumes "\<forall>m \<in> set data. m = 200" and "activeVisualizer st = ''bars''"
  shows "\<exists>bs. snd (drawBars VisB st data) = Inr bs \<and> length bs = length data
              \<and> (\<forall>m \<in> set data. amplifiedValue VisB m = 255)
              \<and> (\<forall>b \<in> set bs. bar_height b = 0.8 * real (height (dims st)))"
proof (cases "data = []")
  case True
  then show ?thesis by (simp add: drawBars_def)
next
  case False
  have amp: "amplifiedValue VisB 200 = 255" by (simp add: amplifiedValue_def gain_def)
  obtain bs where bs: "drawBarsLoop VisB ''bars'' (dims st) data [0..<length data] = Inr bs"
    "length bs = length [0..<length data]"
    "\<forall>k < length [0..<length data]. bar_height (bs ! k)
        = (amplifiedValue VisB (data ! ([0..<length data] ! k)) / 255) * real (height (dims st)) * 0.8"
    using drawBarsLoop_bars [OF False] by blast
  have "bar_height b = 0.8 * real (height (dims st))" if "b \<in> set bs" for b
  proof -
    from that obtain k where k: "k < length bs" "bs ! k = b" by (auto simp: in_set_conv_nth)
    then have "k < length data" using bs(2) by simp
    then have "data ! k = 200" using assms(1) by simp
    moreover have "bar_height (bs ! k)
        = (amplifiedValue VisB (data ! ([0..<length data] ! k)) / 255) * real (height (dims st)) * 0.8"
      using bs(3) \<open>k < length data\<close> by simp
    ultimately show ?thesis using k(2) \<open>k < length data\<close> amp by simp
  qed
  moreover have "\<forall>m \<in> set data. amplifiedValue VisB m = 255" using assms(1) amp by auto
  ultimately show ?thesis using bs(1,2) assms(2) by (simp add: drawBars_def)
qed

theorem bars_all_200_maximum_height_witness:
  "\<exists>bs. snd (drawBars VisB \<lparr>activeVisualizer = ''bars'', dims = \<lparr>width = 800, height = 600\<rparr>,
                              particlesRef = [], colorIndex = 0\<rparr> [200, 200, 200]) = Inr bs
        \<and> length bs = 3 \<and> (\<forall>b \<in> set bs. bar_height b = 480)"
  using bars_all_200_maximum_height
    [of "[200, 200, 200]" "\<lparr>activeVisualizer = ''bars'', dims = \<lparr>width = 800, height = 600\<rparr>,
                              particlesRef = [], colorIndex = 0\<rparr>"]
  by (auto simp: numeral_3_eq_3)

subsection \<open>Intensity\<close>

lemma sum_unat_le: "sum_list (map unat (data :: byte list)) \<le> 255 * length data"
proof (induction data)
  case Nil
  then show ?case by simp
next
  case (Cons m data)
  then show ?case using unat_byte_le [of m] by simp
qed

lemma averageFrequency_Num:
  assumes "data \<noteq> []"
  shows "\<exists>a. averageFrequency data = Num a \<and> 0 \<le> a \<and> a \<le> 255"
proof -
  let ?s = "real (sum_list (map unat data))" and ?n = "real (length data)"
  have n: "0 < ?n" using assms by simp
  have "?s \<le> 255 * ?n" using sum_unat_le [of data] by (metis of_nat_le_iff of_nat_mult of_nat_numeral)
  then have "?s / ?n \<le> 255" using n by (simp add: pos_divide_le_eq)
  moreover have "0 \<le> ?s / ?n" by simp
  moreover have "averageFrequency data = Num (?s / ?n)"
    using n by (simp add: averageFrequency_def)
  ultimately show ?thesis by blast
qed

lemma intensity_Num:
  assumes "data \<noteq> []"
  shows "\<exists>i. intensity v data = Num i \<and> 0 \<le> i \<and> i \<le> 1"
proof -
  obtain a where a: "averageFrequency data = Num a" "0 \<le> a" "a \<le> 255"
    using averageFrequency_Num [OF assms] by blast
  show ?thesis
  proof (cases v)
    case VisA
    then have "intensity v data = Num (min 1 (a / 255 * 3))"
      using a(1) by (simp add: intensity_def jsmin_def jsmul_def)
    moreover have "0 \<le> min 1 (a / 255 * 3)" using a(2) by simp
    ultimately show ?thesis by simp
  next
    case VisB
    then have "intensity v data = Num (a / 255)"
      using a(1) by (simp add: intensity_def)
    moreover have "0 \<le> a / 255 \<and> a / 255 \<le> 1" using a(2,3) by simp
    ultimately show ?thesis by blast
  qed
qed

text \<open>
  Claim C8, amended. For every snapshot with at least one bin, the intensity the
  particles algorithm computes (the average magnitude over 255, in the first revision
  times 3 and capped at 1) is a number in [0, 1].
\<close>

theorem intensity_normalized:
  assumes "data \<noteq> []"
  shows "\<exists>i. intensity v data = Num i \<and> 0 \<le> i \<and> i \<le> 1"
  using assms by (rule intensity_Num)

theorem intensity_normalized_witness:
  "[100, 50 :: byte] \<noteq> [] \<and> intensity VisA [100, 50] = Num (15 / 17)
   \<and> (\<exists>i. intensity VisA [100, 50] = Num i \<and> 0 \<le> i \<and> i \<le> 1)"
  using intensity_normalized [of "[100, 50]" VisA]
  by (simp add: intensity_def averageFrequency_def jsmin_def jsmul_def)

text \<open>
  On the empty snapshot the average is 0 / 0 and the intensity is not a number.
\<close>

theorem intensity_empty_snapshot_counterexample:
  "intensity VisA [] = NaN \<and> intensity VisB [] = NaN"
  by (simp add: intensity_def averageFrequency_def jsmin_def jsmul_def)

lemma intensity_isNum: "data \<noteq> [] \<Longrightarrow> isNum (intensity v data)"
  using intensity_Num [of data v] by auto

subsection \<open>The particle field\<close>

lemma wrap_between: "between (wrap bound (Num c)) (real bound)"
  by (simp add: wrap_def Let_def)

lemma moveParticle_between:
  assumes "isNum inten" "isNum (pos_x p)" "isNum (pos_y p)"
  shows "between (pos_x (moveParticle v d inten p)) (real (width d))
         \<and> between (pos_y (moveParticle v d inten p)) (real (height d))"
proof -
  obtain i a b where "inten = Num i" "pos_x p = Num a" "pos_y p = Num b"
    using assms by (metis isNum.elims(2))
  then show ?thesis
    by (simp add: moveParticle_def Let_def jsadd_def jsmul_def wrap_between)
qed

lemma between_isNum: "between c b \<Longrightarrow> isNum c"
  by (cases c) simp_all

lemma particlesLoop_fst:
  "fst (particlesLoop v d inten ps) = map (moveParticle v d inten) ps"
  by (induction ps) (auto simp: Let_def split: prod.split)

lemma drawParticles_particles:
  "particlesRef (fst (drawParticles v st data))
     = map (moveParticle v (dims st) (intensity v data)) (particlesRef st)"
  using particlesLoop_fst [of v "dims st" "intensity v data" "particlesRef st"]
  by (auto simp: drawParticles_def split: prod.split)

lemma drawParticles_dims: "dims (fst (drawParticles v st data)) = dims st"
  by (simp add: drawParticles_def split: prod.split)

lemma drawParticles_between:
  assumes "data \<noteq> []"
    and "\<forall>p \<in> set (particlesRef st). isNum (pos_x p) \<and> isNum (pos_y p)"
  shows "\<forall>p \<in> set (particlesRef (fst (drawParticles v st data))).
           between (pos_x p) (real (width (dims st))) \<and> between (pos_y p) (real (height (dims st)))"
  using assms moveParticle_between [OF intensity_isNum [OF assms(1)]]
  by (auto simp: drawParticles_particles)

lemma stepField_dims: "dims (stepField v st datas) = dims st"
  by (induction datas arbitrary: st) (simp_all add: drawParticles_dims)

lemma stepField_between:
  assumes "\<forall>data \<in> set datas. data \<noteq> []"
    and "\<forall>p \<in> set (particlesRef st).
           between (pos_x p) (real (width (dims st))) \<and> between (pos_y p) (real (height (dims st)))"
  shows "\<forall>p \<in> set (particlesRef (stepField v st datas)).
           between (pos_x p) (real (width (dims st))) \<and> between (pos_y p) (real (height (dims st)))"
  using assms
proof (induction datas arbitrary: st)
  case Nil
  then show ?case by simp
next
  case (Cons data rest)
  let ?st = "fst (drawParticles v st data)"
  have "data \<noteq> []" using Cons.prems(1) by simp
  moreover have "\<forall>p \<in> set (particlesRef st). isNum (pos_x p) \<and> isNum (pos_y p)"
    using Cons.prems(2) between_isNum by blast
  ultimately have "\<forall>p \<in> set (particlesRef ?st).
      between (pos_x p) (real (width (dims ?st))) \<and> between (pos_y p) (real (height (dims ?st)))"
    using drawParticles_between [of data st v] by (simp add: drawParticles_dims)
  moreover have "\<forall>data \<in> set rest. data \<noteq> []" using Cons.prems(1) by simp
  ultimately have "\<forall>p \<in> set (particlesRef (stepField v ?st rest)).
      between (pos_x p) (real (width (dims ?st))) \<and> between (pos_y p) (real (height (dims ?st)))"
    using Cons.IH [of ?st] by blast
  then show ?case by (simp add: drawParticles_dims)
qed

text \<open>
  Claim C3, amended. After one or more steps of the particle field on snapshots with at
  least one bin, every particle that started at a numeric position lies within the
  closed ranges [0, width] and [0, height]: a coordinate that falls below 0 is set to
  the bound itself.
\<close>

theorem positions_within_closed_viewport:
  assumes "datas \<noteq> []"
    and "\<forall>data \<in> set datas. data \<noteq> []"
    and "\<forall>p \<in> set (particlesRef st). isNum (pos_x p) \<and> isNum (pos_y p)"
  shows "\<forall>p \<in> set (particlesRef (stepField v st datas)).
           between (pos_x p) (real (width (dims st))) \<and> between (pos_y p) (real (height (dims st)))"
proof -
  obtain data rest where datas: "datas = data # rest" using assms(1) by (cases datas) auto
  let ?st = "fst (drawParticles v st data)"
  have "data \<noteq> []" using assms(2) datas by simp
  then have "\<forall>p \<in> set (particlesRef ?st).
      between (pos_x p) (real (width (dims ?st))) \<and> between (pos_y p) (real (height (dims ?st)))"
    using drawParticles_between [of data st v] assms(3) by (simp add: drawParticles_dims)
  moreover have "\<forall>data \<in> set rest. data \<noteq> []" using assms(2) datas by simp
  ultimately have "\<forall>p \<in> set (particlesRef (stepField v ?st rest)).
      between (pos_x p) (real (width (dims ?st))) \<and> between (pos_y p) (real (height (dims ?st)))"
    using stepField_between [of rest ?st v] by blast
  then show ?thesis using datas by (simp add: drawParticles_dims)
qed

lemma edge_step: "particlesRef (fst (drawParticles VisA edgeField [0])) = [edgeParticle\<lparr>pos_x := Num 800\<rparr>]"
  by (simp add: drawParticles_particles edgeField_def edgeParticle_def moveParticle_def Let_def
      intensity_def averageFrequency_def jsmin_def jsmul_def jsadd_def wrap_def reactivity_def)

text \<open>
  A particle at \<open>x = 0\<close> moving left is put at \<open>x = width\<close>, which is outside the
  half-open range.
\<close>

theorem wrap_reaches_width_counterexample:
  "map pos_x (particlesRef (fst (drawParticles VisA edgeField [0]))) = [Num 800]
   \<and> real (width (dims edgeField)) = 800 \<and> \<not> (800 :: real) < 800"
proof -
  have "map pos_x (particlesRef (fst (drawParticles VisA edgeField [0]))) = [Num 800]"
    by (simp only: edge_step) simp
  moreover have "real (width (dims edgeField)) = 800" by (simp add: edgeField_def)
  ultimately show ?thesis by simp
qed

theorem positions_within_closed_viewport_witness:
  "map pos_x (particlesRef (stepField VisA edgeField [[0], [0]])) = [Num 799]
   \<and> list_all (\<lambda>p. between (pos_x p) 800 \<and> between (pos_y p) 600)
        (particlesRef (stepField VisA edgeField [[0], [0]]))"
proof -
  have "map pos_x (particlesRef (stepField VisA edgeField [[0], [0]])) = [Num 799]"
    by (simp add: drawParticles_particles drawParticles_dims edgeField_def edgeParticle_def
        moveParticle_def Let_def intensity_def averageFrequency_def jsmin_def jsmul_def jsadd_def
        wrap_def reactivity_def)
  moreover have "\<forall>p \<in> set (particlesRef (stepField VisA edgeField [[0], [0]])).
         between (pos_x p) (real (width (dims edgeField))) \<and> between (pos_y p) (real (height (dims edgeField)))"
    using positions_within_closed_viewport [of "[[0], [0]]" edgeField VisA]
    by (simp add: edgeField_def edgeParticle_def)
  ultimately show ?thesis by (simp add: edgeField_def list_all_iff)
qed

lemma particlesLoop_length: "length (fst (particlesLoop v d inten ps)) = length ps"
  by (simp add: particlesLoop_fst)

lemma stepField_length: "length (particlesRef (stepField v st datas)) = length (particlesRef st)"
  by (induction datas arbitrary: st) (simp_all add: drawParticles_particles)

lemma drawParticles_length:
  "drawParticles v st data = (st', r) \<Longrightarrow> length (particlesRef st') = length (particlesRef st)"
  using drawParticles_particles [of v st data] by simp

lemma draw_length: "length (particlesRef (fst (draw v st analyserData))) = length (particlesRef st)"
  by (auto simp: draw_def drawBars_def drawWave_def
      split: option.split prod.split sum.split dest: drawParticles_length)

text \<open>
  Claim C7. Stepping the field, and drawing a frame in any mode, leave the number of
  particles as it is; a field rebuilt for the particles mode has 100 particles after any
  number of steps.
\<close>

theorem particle_count_invariant:
  "length (particlesRef (stepField v st datas)) = length (particlesRef st)
   \<and> length (particlesRef (fst (draw v st analyserData))) = length (particlesRef st)
   \<and> length (particlesRef (stepField v
        (particlesEffect rnd (st\<lparr>activeVisualizer := ''particles''\<rparr>)) datas)) = 100"
  by (simp add: stepField_length draw_length particlesEffect_def)

subsection \<open>Dispatch on the mode\<close>

lemma getColor_unknown:
  assumes "mode \<notin> {''bars'', ''circular'', ''wave'', ''particles''}" and "mode \<notin> set objectPrototype"
  shows "getColor mode i n = getColor ''bars'' i n"
  using assms by (simp add: getColor_def getProp_def colorSchemes_def)

lemma drawBarsLoop_unknown:
  assumes "mode \<notin> {''bars'', ''circular'', ''wave'', ''particles''}" and "mode \<notin> set objectPrototype"
  shows "drawBarsLoop v mode d data idxs = drawBarsLoop v ''bars'' d data idxs"
proof -
  have "drawBar v mode d data i = drawBar v ''bars'' d data i" for i
    by (simp only: drawBar_def getColor_unknown [OF assms])
  then show ?thesis by (induction idxs) (simp_all split: sum.split)
qed

lemma draw_unknown_mode_as_bars:
  assumes "mode \<notin> {''bars'', ''circular'', ''wave'', ''particles''}" and "mode \<notin> set objectPrototype"
  shows "draw v (st\<lparr>activeVisualizer := mode\<rparr>) analyserData
         = (case draw v (st\<lparr>activeVisualizer := ''bars''\<rparr>) analyserData of
              (st', r) \<Rightarrow> (st'\<lparr>activeVisualizer := mode\<rparr>, r))"
  using assms(1)
  by (simp add: draw_def drawBars_def drawBarsLoop_unknown [OF assms]
      split: option.split sum.split)

lemma getColor_inherited: "mode \<in> set objectPrototype \<Longrightarrow> getColor mode i n = None"
  by (auto simp: getColor_def getProp_def colorSchemes_def objectPrototype_def)

text \<open>
  Claim C6 says that every mode other than the four known ones is drawn as bars. The
  mode \<open>toString\<close> names a property every object inherits: the dispatch falls through
  to the bars, but the palette lookup takes the inherited function for the palette, the
  color is \<open>undefined\<close> and the first bar raises. Mode \<open>bars\<close> draws the same
  snapshot.
\<close>

theorem inherited_mode_draw_fails:
  "snd (draw v (st\<lparr>activeVisualizer := ''toString''\<rparr>) (Some [200])) = Inl SyntaxError
   \<and> (\<exists>bs. snd (draw v (st\<lparr>activeVisualizer := ''bars''\<rparr>) (Some [200])) = Inr (BarsFrame bs))"
proof -
  have "getColor ''toString'' 0 (Suc 0) = None"
    by (rule getColor_inherited) (simp add: objectPrototype_def)
  then have "snd (draw v (st\<lparr>activeVisualizer := ''toString''\<rparr>) (Some [200])) = Inl SyntaxError"
    by (simp add: draw_def drawBars_def drawBar_def)
  moreover obtain c where "getColor ''bars'' 0 (Suc 0) = Some c"
    using getColor_bars [of "Suc 0" 0] by auto
  then have "\<exists>bs. snd (draw v (st\<lparr>activeVisualizer := ''bars''\<rparr>) (Some [200])) = Inr (BarsFrame bs)"
    by (simp add: draw_def drawBars_def drawBar_def Let_def)
  ultimately show ?thesis by blast
qed

section \<open>Properties of the audio engine\<close>

subsection \<open>Key-down\<close>

lemma NOTES_positive: "getProp NOTES key = Own f \<Longrightarrow> 0 < f"
  by (simp add: getProp_def NOTES_def split: if_splits)

lemma NOTES_truthy: "getProp NOTES key = Own f \<Longrightarrow> truthy (getProp NOTES key)"
  using NOTES_positive [of key f] by simp


lemma handleKeyDown_unknown:
  "getProp NOTES (toLowerCase ekey) = Undefined \<Longrightarrow> handleKeyDown v st ekey = Inr st"
  by (simp add: handleKeyDown_def)

lemma handleKeyDown_no_context:
  "audioContext st = None \<Longrightarrow> handleKeyDown v st ekey = Inr st"
  by (simp add: handleKeyDown_def Let_def)

lemma handleKeyDown_new:
  assumes "getProp NOTES (toLowerCase ekey) = Own f" and "audioContext st = Some cs"
    and "toLowerCase ekey \<notin> activeKeys st"
  shows "\<exists>s1. handleKeyDown v st ekey = Inr s1
          \<and> oscillatorsRef s1 = (oscillatorsRef st)(toLowerCase ekey \<mapsto> length (oscNodes st))
          \<and> gainsRef s1 = (gainsRef st)(toLowerCase ekey \<mapsto> length (gainNodes st))
          \<and> activeKeys s1 = insert (toLowerCase ekey) (activeKeys st)
          \<and> oscNodes s1 = oscNodes st @ [\<lparr>frequency = f, osc_started = True, osc_stopped = False,
                                           osc_out = Some (length (gainNodes st))\<rparr>]
          \<and> gainNodes s1 = gainNodes st @ [\<lparr>gain_events =
                                     [SetValueAtTime 0 (currentTime st),
                                      LinearRampToValueAtTime (peak v) (currentTime st + 0.1)],
                                   gain_out = True\<rparr>]
          \<and> audioContext s1 = Some Running \<and> timers s1 = timers st \<and> clock s1 = clock st
          \<and> dataArrayRef s1 = (case (v, dataArrayRef st) of
                                  (EngA, Some buf) \<Rightarrow> Some (boost f buf)
                                | _ \<Rightarrow> dataArrayRef st)"
  using assms NOTES_truthy [OF assms(1)]
  by (cases v; cases "dataArrayRef st") (simp_all add: handleKeyDown_def Let_def)


lemma registryOk_unmounted: "registryOk unmounted"
  by (simp add: registryOk_def unmounted_def)

lemma registryOk_initAudio: "registryOk st \<Longrightarrow> registryOk (initAudio v rnd cs st)"
  by (cases v) (simp_all add: registryOk_def initAudio_def Let_def)

lemma registryOk_mount: "registryOk (mount v rnd cs)"
  by (cases v) (simp_all add: mount_def registryOk_def initAudio_def Let_def unmounted_def)

lemma registryOk_handleFirstInteraction:
  "registryOk st \<Longrightarrow> registryOk (handleFirstInteraction v rnd cs st)"
  by (cases v) (simp_all add: handleFirstInteraction_def registryOk_def initAudio_def)

lemma registryOk_updateAnalyser: "registryOk st \<Longrightarrow> registryOk (updateAnalyser v raw st)"
  by (simp add: updateAnalyser_def registryOk_def Let_def split: option.split)

lemma registryOk_handleKeyDown:
  assumes "registryOk st" and "handleKeyDown v st ekey = Inr s1"
  shows "registryOk s1"
proof (cases "toLowerCase ekey \<in> activeKeys st \<or> audioContext st = None
              \<or> \<not> truthy (getProp NOTES (toLowerCase ekey))")
  case True
  then have "handleKeyDown v st ekey = Inr st"
    by (auto simp: handleKeyDown_def Let_def)
  then show ?thesis using assms by simp
next
  case False
  then obtain cs where cs: "audioContext st = Some cs" by auto
  from False assms(2) obtain f where f: "getProp NOTES (toLowerCase ekey) = Own f"
    by (cases "getProp NOTES (toLowerCase ekey)") (simp_all add: handleKeyDown_def Let_def cs)
  from False have "toLowerCase ekey \<notin> activeKeys st" by simp
  from handleKeyDown_new [OF f cs this, of v] assms show ?thesis
    by (auto simp: registryOk_def)
qed

lemma registryOk_handleKeyUp: "registryOk st \<Longrightarrow> registryOk (handleKeyUp v st ekey)"
  by (simp add: handleKeyUp_def registryOk_def Let_def split: option.split)

lemma registryOk_releaseVoice: "registryOk st \<Longrightarrow> registryOk (releaseVoice key st)"
  by (auto simp: releaseVoice_def registryOk_def Let_def)

lemma registryOk_fold:
  "registryOk st \<Longrightarrow> registryOk (fold (\<lambda>(tm, key). releaseVoice key) due st)"
  by (induction due arbitrary: st) (auto simp: registryOk_releaseVoice)

lemma registryOk_advance: "registryOk st \<Longrightarrow> registryOk (advance d st)"
  unfolding advance_def Let_def by (rule registryOk_fold) (simp add: registryOk_def)


text \<open>
  Claim C9 says that a key outside the note table is ignored silently. The key
  \<open>constructor\<close> is not in the table, but the table inherits a property of that name:
  the guard lets it pass, the nodes are created, and setting the frequency to a value
  that is no number raises a \<open>TypeError\<close>.
\<close>

theorem inherited_key_raises:
  "handleKeyDown EngA (mount EngA rnd cs) ''constructor'' = Inl TypeError
   \<and> handleKeyDown EngB (handleFirstInteraction EngB rnd cs (mount EngB rnd cs)) ''constructor''
       = Inl TypeError"
proof -
  have k: "toLowerCase ''constructor'' = ''constructor''" by (simp add: toLowerCase_def)
  have n: "getProp NOTES ''constructor'' = Inherited"
    by (simp add: getProp_def NOTES_def objectPrototype_def)
  have a: "audioContext (mount EngA rnd cs) = Some cs" "activeKeys (mount EngA rnd cs) = {}"
    by (simp_all add: mount_def initAudio_def Let_def unmounted_def)
  have b: "audioContext (handleFirstInteraction EngB rnd cs (mount EngB rnd cs)) = Some cs"
    "activeKeys (handleFirstInteraction EngB rnd cs (mount EngB rnd cs)) = {}"
    by (simp_all add: mount_def handleFirstInteraction_def initAudio_def unmounted_def)
  show ?thesis by (simp add: handleKeyDown_def k n a b)
qed

subsection \<open>Key-up and release\<close>

lemma handleKeyUp_release:
  assumes "getProp NOTES (toLowerCase ekey) = Own f" and "audioContext st = Some cs"
    and "oscillatorsRef st (toLowerCase ekey) = Some ob" and "gainsRef st (toLowerCase ekey) = Some g"
  shows "handleKeyUp v st ekey =
           st\<lparr>gainNodes :=
                (gainNodes st)[g := (gainNodes st ! g)
                   \<lparr>gain_events := gain_events (gainNodes st ! g)
                      @ [LinearRampToValueAtTime 0 (currentTime st + 0.1)]\<rparr>],
              timers := timers st @ [(clock st + 100, toLowerCase ekey)]\<rparr>"
  using assms NOTES_truthy [OF assms(1)] by (simp add: handleKeyUp_def Let_def)

lemma released_releaseVoice_same: "released key (releaseVoice key st)"
  by (simp add: released_def releaseVoice_def Let_def)

lemma released_releaseVoice_other: "released key st \<Longrightarrow> released key (releaseVoice k st)"
  by (simp add: released_def releaseVoice_def Let_def)

lemma released_fold:
  "released key st \<or> key \<in> snd ` set due
   \<Longrightarrow> released key (fold (\<lambda>(tm, k). releaseVoice k) due st)"
proof (induction due arbitrary: st)
  case Nil
  then show ?case by simp
next
  case (Cons a due)
  obtain tm k where a: "a = (tm, k)" by (cases a)
  have "released key (releaseVoice k st) \<or> key \<in> snd ` set due"
    using Cons.prems a released_releaseVoice_same [of key st]
      released_releaseVoice_other [of key st k]
    by auto
  then show ?case using Cons.IH [of "releaseVoice k st"] a by simp
qed

lemma stop_keeps_stopped:
  "ob < length xs \<Longrightarrow> osc_stopped (xs ! ob)
   \<Longrightarrow> osc_stopped (xs[x2 := (xs ! x2)\<lparr>osc_stopped := True\<rparr>] ! ob)"
  by (cases "x2 = ob") simp_all

lemma stoppedAt_releaseVoice: "stoppedAt ob st \<Longrightarrow> stoppedAt ob (releaseVoice k st)"
  by (auto simp: stoppedAt_def releaseVoice_def Let_def stop_keeps_stopped split: option.split)

lemma stoppedAt_fold:
  "stoppedAt ob st \<Longrightarrow> stoppedAt ob (fold (\<lambda>(tm, k). releaseVoice k) due st)"
  by (induction due arbitrary: st) (auto simp: stoppedAt_releaseVoice)

lemma stoppedAt_release_owner:
  assumes "ob < length (oscNodes st)"
    and "osc_stopped (oscNodes st ! ob) \<or> oscillatorsRef st key = Some ob"
  shows "stoppedAt ob (releaseVoice key st)"
  using assms by (auto simp: stoppedAt_def releaseVoice_def Let_def stop_keeps_stopped split: option.split)

lemma owner_releaseVoice_other:
  assumes "ob < length (oscNodes st)"
    and "osc_stopped (oscNodes st ! ob) \<or> oscillatorsRef st key = Some ob" and "k \<noteq> key"
  shows "ob < length (oscNodes (releaseVoice k st))
         \<and> (osc_stopped (oscNodes (releaseVoice k st) ! ob)
              \<or> oscillatorsRef (releaseVoice k st) key = Some ob)"
  using assms by (auto simp: releaseVoice_def Let_def stop_keeps_stopped split: option.split)

lemma stoppedAt_fold_owner:
  assumes "ob < length (oscNodes st)"
    and "osc_stopped (oscNodes st ! ob) \<or> oscillatorsRef st key = Some ob"
    and "key \<in> snd ` set due"
  shows "stoppedAt ob (fold (\<lambda>(tm, k). releaseVoice k) due st)"
  using assms
proof (induction due arbitrary: st)
  case Nil
  then show ?case by simp
next
  case (Cons a due)
  obtain tm k where a: "a = (tm, k)" by (cases a)
  show ?case
  proof (cases "k = key")
    case True
    have "stoppedAt ob (releaseVoice key st)"
      using Cons.prems(1,2) by (rule stoppedAt_release_owner)
    then show ?thesis using a True by (simp add: stoppedAt_fold)
  next
    case False
    then have "key \<in> snd ` set due" using Cons.prems(3) a by auto
    moreover note owner_releaseVoice_other [OF Cons.prems(1,2) False]
    ultimately have "stoppedAt ob (fold (\<lambda>(tm, k). releaseVoice k) due (releaseVoice k st))"
      using Cons.IH [of "releaseVoice k st"] by blast
    then show ?thesis using a by simp
  qed
qed

lemma release_after_delay:
  assumes "getProp NOTES (toLowerCase ekey) = Own f" and "audioContext st = Some cs"
    and "oscillatorsRef st (toLowerCase ekey) = Some ob" and "gainsRef st (toLowerCase ekey) = Some g"
    and "ob < length (oscNodes st)" and "g < length (gainNodes st)" and "100 \<le> d"
  shows "gain_events (gainNodes (handleKeyUp v st ekey) ! g)
           = gain_events (gainNodes st ! g) @ [LinearRampToValueAtTime 0 (currentTime st + 0.1)]
       \<and> timers (handleKeyUp v st ekey) = timers st @ [(clock st + 100, toLowerCase ekey)]
       \<and> oscillatorsRef (advance d (handleKeyUp v st ekey)) (toLowerCase ekey) = None
       \<and> gainsRef (advance d (handleKeyUp v st ekey)) (toLowerCase ekey) = None
       \<and> toLowerCase ekey \<notin> activeKeys (advance d (handleKeyUp v st ekey))
       \<and> osc_stopped (oscNodes (advance d (handleKeyUp v st ekey)) ! ob)"
proof -
  let ?key = "toLowerCase ekey"
  let ?s1 = "handleKeyUp v st ekey"
  note up = handleKeyUp_release [OF assms(1-4), of v]
  let ?t = "clock ?s1 + d"
  let ?due = "filter (\<lambda>(tm, key). tm \<le> ?t) (timers ?s1)"
  let ?s2 = "?s1\<lparr>clock := ?t, timers := filter (\<lambda>(tm, key). \<not> tm \<le> ?t) (timers ?s1)\<rparr>"
  have adv: "advance d ?s1 = fold (\<lambda>(tm, k). releaseVoice k) ?due ?s2"
    by (simp add: advance_def Let_def)
  have "(clock st + 100, ?key) \<in> set ?due" using assms(7) by (simp add: up)
  then have due: "?key \<in> snd ` set ?due" by force
  have rel: "released ?key (advance d ?s1)"
    unfolding adv using due by (intro released_fold) simp
  have "ob < length (oscNodes ?s2)" using assms(5) by (simp add: up)
  moreover have "osc_stopped (oscNodes ?s2 ! ob) \<or> oscillatorsRef ?s2 ?key = Some ob"
    using assms(3) by (simp add: up)
  ultimately have "stoppedAt ob (advance d ?s1)"
    unfolding adv using due by (rule stoppedAt_fold_owner)
  then have "osc_stopped (oscNodes (advance d ?s1) ! ob)" by (simp add: stoppedAt_def)
  moreover have "gain_events (gainNodes ?s1 ! g)
           = gain_events (gainNodes st ! g) @ [LinearRampToValueAtTime 0 (currentTime st + 0.1)]"
    using assms(6) by (simp add: up)
  moreover have "timers ?s1 = timers st @ [(clock st + 100, ?key)]" by (simp add: up)
  ultimately show ?thesis using rel by (simp add: released_def)
qed

subsection \<open>The boost of the analysis buffer\<close>

lemma mod_shift_inj:
  assumes "(b + i) mod n = (b + j) mod n" and "i < n" and "j < n"
  shows "i = (j :: nat)"
proof -
  have aux: "p = q" if "(b + p) mod n = (b + q) mod n" "p \<le> q" "q < n" for p q :: nat
  proof -
    have "n dvd q - p"
      using mod_eq_dvd_iff_nat [of "b + p" "b + q" n] that(1,2) by simp
    moreover have "q - p < n" using that(3) by simp
    ultimately have "q - p = 0" using nat_dvd_not_less by blast
    then show ?thesis using that(2) by simp
  qed
  show ?thesis
  proof (cases "i \<le> j")
    case True
    then show ?thesis using aux [of i j] assms by simp
  next
    case False
    then have "j \<le> i" by simp
    then show ?thesis using aux [of j i] assms by simp
  qed
qed

lemma ten_slots_distinct:
  assumes "10 \<le> n"
  shows "card ((\<lambda>i. ((b :: nat) + i) mod n) ` {0..<10}) = (10 :: nat)"
proof -
  have "inj_on (\<lambda>i. (b + i) mod n) {0..<10}"
  proof (rule inj_onI)
    fix i j assume "i \<in> {0..<10::nat}" "j \<in> {0..<10::nat}" "(b + i) mod n = (b + j) mod n"
    then show "i = j" using mod_shift_inj [of b i n j] assms by simp
  qed
  then show ?thesis by (simp add: card_image)
qed

lemma fold_update_length: "length (fold (\<lambda>i b. b[g i := c]) idxs buf) = length buf"
  by (induction idxs arbitrary: buf) simp_all

lemma fold_update_nth:
  "j < length buf \<Longrightarrow>
   fold (\<lambda>i b. b[g i := c]) idxs buf ! j = (if j \<in> g ` set idxs then c else buf ! j)"
proof (induction idxs arbitrary: buf)
  case Nil
  then show ?case by simp
next
  case (Cons i idxs)
  then have "j < length (buf[g i := c])" by simp
  from Cons.IH [OF this] show ?case using Cons.prems by (auto simp: nth_list_update)
qed

lemma boost_slots:
  assumes "buf \<noteq> []"
  shows "length (boost f buf) = length buf"
    and "j < length buf \<Longrightarrow>
         boost f buf ! j
           = (if j \<in> (\<lambda>i. (boostIndex f (length buf) + i) mod length buf) ` {0..<10}
              then 230 else buf ! j)"
  using assms by (simp_all add: boost_def fold_update_length fold_update_nth)

lemma boost_ten_slots:
  assumes "getProp NOTES (toLowerCase ekey) = Own f" and "audioContext st = Some cs"
    and "toLowerCase ekey \<notin> activeKeys st" and "dataArrayRef st = Some buf" and "10 \<le> length buf"
  shows "\<exists>s1 buf'. handleKeyDown EngA st ekey = Inr s1 \<and> dataArrayRef s1 = Some buf'
           \<and> published s1 = Some buf' \<and> length buf' = length buf
           \<and> (\<forall>j < length buf. buf' ! j
                 = (if j \<in> (\<lambda>i. (boostIndex f (length buf) + i) mod length buf) ` {0..<10}
                    then 230 else buf ! j))
           \<and> card ((\<lambda>i. (boostIndex f (length buf) + i) mod length buf) ` {0..<10}) = 10
           \<and> boostIndex f (length buf) = nat \<lfloor>jsrem f (real (length buf))\<rfloor>"
proof -
  have ne: "buf \<noteq> []" using assms(5) by auto
  have "handleKeyDown EngA st ekey
          = Inr (st\<lparr>audioContext := Some Running,
                    oscNodes := oscNodes st @ [\<lparr>frequency = f, osc_started = True, osc_stopped = False,
                                     osc_out = Some (length (gainNodes st))\<rparr>],
                    gainNodes := gainNodes st @ [\<lparr>gain_events =
                                     [SetValueAtTime 0 (currentTime st),
                                      LinearRampToValueAtTime (peak EngA) (currentTime st + 0.1)],
                                   gain_out = True\<rparr>],
                    oscillatorsRef := (oscillatorsRef st)(toLowerCase ekey \<mapsto> length (oscNodes st)),
                    gainsRef := (gainsRef st)(toLowerCase ekey \<mapsto> length (gainNodes st)),
                    activeKeys := insert (toLowerCase ekey) (activeKeys st),
                    dataArrayRef := Some (boost f buf),
                    published := Some (boost f buf)\<rparr>)"
    using assms(1-4) NOTES_truthy [OF assms(1)] by (simp add: handleKeyDown_def Let_def)
  moreover have "card ((\<lambda>i. (boostIndex f (length buf) + i) mod length buf) ` {0..<10}) = 10"
    using assms(5) by (rule ten_slots_distinct)
  ultimately show ?thesis
    using boost_slots [OF ne] by (simp add: boostIndex_def)
qed

subsection \<open>What every handler keeps\<close>

lemma ran_upd_subset: "ran (m(k \<mapsto> v)) \<subseteq> insert v (ran m)"
  by (auto simp: ran_def)

lemma ran_del_subset: "ran (m(k := None)) \<subseteq> ran m"
  by (auto simp: ran_def)

lemma buffersOk_same:
  "dataArrayRef s' = dataArrayRef st \<Longrightarrow> audioContext s' = audioContext st
   \<Longrightarrow> buffersOk st \<Longrightarrow> buffersOk s'"
  by (simp add: buffersOk_def)

lemma handleKeyUp_keeps:
  "dataArrayRef (handleKeyUp v st ekey) = dataArrayRef st"
  "audioContext (handleKeyUp v st ekey) = audioContext st"
  "oscillatorsRef (handleKeyUp v st ekey) = oscillatorsRef st"
  "gainsRef (handleKeyUp v st ekey) = gainsRef st"
  "oscNodes (handleKeyUp v st ekey) = oscNodes st"
  "length (gainNodes (handleKeyUp v st ekey)) = length (gainNodes st)"
  "activeKeys (handleKeyUp v st ekey) = activeKeys st"
  by (simp_all add: handleKeyUp_def Let_def split: option.split)

lemma releaseVoice_keeps:
  "dataArrayRef (releaseVoice key st) = dataArrayRef st"
  "audioContext (releaseVoice key st) = audioContext st"
  "length (oscNodes (releaseVoice key st)) = length (oscNodes st)"
  "gainNodes (releaseVoice key st) = gainNodes st"
  "oscillatorsRef (releaseVoice key st) = (oscillatorsRef st)(key := None)"
  "gainsRef (releaseVoice key st) = (gainsRef st)(key := None)"
  "activeKeys (releaseVoice key st) = activeKeys st - {key}"
  by (simp_all add: releaseVoice_def Let_def split: option.split)

lemma contextOk_same:
  "activeKeys s' \<subseteq> activeKeys st \<Longrightarrow> audioContext s' = audioContext st
   \<Longrightarrow> contextOk st \<Longrightarrow> contextOk s'"
  by (auto simp: contextOk_def)

lemma buffersOk_initAudio: "buffersOk (initAudio v rnd cs st)"
  by (cases v) (simp_all add: buffersOk_def initAudio_def Let_def)

lemma engineOk_mount: "engineOk (mount v rnd cs)"
proof -
  have "nodesOk (mount v rnd cs)"
    by (cases v) (simp_all add: nodesOk_def mount_def initAudio_def Let_def unmounted_def)
  moreover have "buffersOk (mount v rnd cs)"
    by (cases v) (simp_all add: buffersOk_def mount_def initAudio_def Let_def unmounted_def)
  moreover have "contextOk (mount v rnd cs)"
    by (cases v) (simp_all add: contextOk_def mount_def initAudio_def Let_def unmounted_def)
  ultimately show ?thesis by (simp add: engineOk_def registryOk_mount)
qed

lemma engineOk_handleFirstInteraction:
  assumes "engineOk st"
  shows "engineOk (handleFirstInteraction v rnd cs st)"
proof -
  have "nodesOk (handleFirstInteraction v rnd cs st)"
    using assms by (cases v) (simp_all add: engineOk_def nodesOk_def handleFirstInteraction_def initAudio_def)
  moreover have "buffersOk (handleFirstInteraction v rnd cs st)"
    using assms
    by (cases v) (auto simp: engineOk_def buffersOk_def handleFirstInteraction_def initAudio_def
        split: option.splits)
  moreover have "contextOk (handleFirstInteraction v rnd cs st)"
    using assms
    by (cases v) (auto simp: engineOk_def contextOk_def handleFirstInteraction_def initAudio_def)
  ultimately show ?thesis
    using assms by (simp add: engineOk_def registryOk_handleFirstInteraction)
qed

lemma length_fill: "length (take (length buf) raw @ drop (length raw) buf) = length buf"
  by simp

lemma engineOk_updateAnalyser:
  assumes "engineOk st"
  shows "engineOk (updateAnalyser v raw st)"
proof -
  have "nodesOk (updateAnalyser v raw st)"
    using assms by (simp add: engineOk_def nodesOk_def updateAnalyser_def Let_def split: option.split)
  moreover have "buffersOk (updateAnalyser v raw st)"
    using assms
    by (cases v)
      (auto simp: engineOk_def buffersOk_def updateAnalyser_def Let_def split: option.splits if_splits)
  moreover have "contextOk (updateAnalyser v raw st)"
    using assms
    by (auto simp: engineOk_def contextOk_def updateAnalyser_def Let_def split: option.splits)
  ultimately show ?thesis
    using assms by (simp add: engineOk_def registryOk_updateAnalyser)
qed

lemma length_boost: "length (boost f buf) = length buf"
  by (simp add: boost_def fold_update_length)

lemma engineOk_handleKeyDown:
  assumes "engineOk st" and "handleKeyDown v st ekey = Inr s1"
  shows "engineOk s1"
proof (cases "toLowerCase ekey \<in> activeKeys st \<or> audioContext st = None
              \<or> \<not> truthy (getProp NOTES (toLowerCase ekey))")
  case True
  then have "handleKeyDown v st ekey = Inr st"
    by (auto simp: handleKeyDown_def Let_def)
  then show ?thesis using assms by simp
next
  case False
  then obtain cs where cs: "audioContext st = Some cs" by auto
  from False assms(2) obtain f where f: "getProp NOTES (toLowerCase ekey) = Own f"
    by (cases "getProp NOTES (toLowerCase ekey)") (simp_all add: handleKeyDown_def Let_def cs)
  from False have fr: "toLowerCase ekey \<notin> activeKeys st" by simp
  from handleKeyDown_new [OF f cs fr, of v] assms(2)
  have s1: "oscillatorsRef s1 = (oscillatorsRef st)(toLowerCase ekey \<mapsto> length (oscNodes st))"
    "gainsRef s1 = (gainsRef st)(toLowerCase ekey \<mapsto> length (gainNodes st))"
    "length (oscNodes s1) = Suc (length (oscNodes st))"
    "length (gainNodes s1) = Suc (length (gainNodes st))"
    "audioContext s1 = Some Running"
    "dataArrayRef s1 = (case (v, dataArrayRef st) of
                                  (EngA, Some buf) \<Rightarrow> Some (boost f buf)
                                | _ \<Rightarrow> dataArrayRef st)"
    by auto
  have "nodesOk s1"
    using assms(1) ran_upd_subset [of "oscillatorsRef st" "toLowerCase ekey" "length (oscNodes st)"]
      ran_upd_subset [of "gainsRef st" "toLowerCase ekey" "length (gainNodes st)"]
    by (auto simp: engineOk_def nodesOk_def s1 less_Suc_eq)
  moreover have "buffersOk s1"
    using assms(1) cs
    by (cases v; cases "dataArrayRef st") (simp_all add: engineOk_def buffersOk_def s1 length_boost)
  moreover have "contextOk s1" by (simp add: contextOk_def s1)
  ultimately show ?thesis
    using assms registryOk_handleKeyDown [of st v ekey s1] by (simp add: engineOk_def)
qed

lemma engineOk_handleKeyUp:
  assumes "engineOk st"
  shows "engineOk (handleKeyUp v st ekey)"
proof -
  have "nodesOk (handleKeyUp v st ekey)"
    using assms by (simp add: engineOk_def nodesOk_def handleKeyUp_keeps)
  moreover have "buffersOk (handleKeyUp v st ekey)"
    using assms by (auto simp: engineOk_def handleKeyUp_keeps intro: buffersOk_same)
  moreover have "contextOk (handleKeyUp v st ekey)"
    using assms by (auto simp: engineOk_def handleKeyUp_keeps intro: contextOk_same)
  ultimately show ?thesis using assms by (simp add: engineOk_def registryOk_handleKeyUp)
qed

lemma engineOk_releaseVoice:
  assumes "engineOk st"
  shows "engineOk (releaseVoice key st)"
proof -
  have "nodesOk (releaseVoice key st)"
    using assms ran_del_subset [of "oscillatorsRef st" key] ran_del_subset [of "gainsRef st" key]
    by (auto simp: engineOk_def nodesOk_def releaseVoice_keeps)
  moreover have "buffersOk (releaseVoice key st)"
    using assms by (auto simp: engineOk_def releaseVoice_keeps intro: buffersOk_same)
  moreover have "contextOk (releaseVoice key st)"
    using assms by (auto simp: engineOk_def releaseVoice_keeps intro: contextOk_same)
  ultimately show ?thesis using assms by (simp add: engineOk_def registryOk_releaseVoice)
qed

lemma engineOk_fold:
  "engineOk st \<Longrightarrow> engineOk (fold (\<lambda>(tm, key). releaseVoice key) due st)"
  by (induction due arbitrary: st) (auto simp: engineOk_releaseVoice)

lemma engineOk_advance: "engineOk st \<Longrightarrow> engineOk (advance d st)"
  unfolding advance_def Let_def
  by (rule engineOk_fold)
    (simp add: engineOk_def registryOk_def nodesOk_def buffersOk_def contextOk_def)

lemma engineOk_voice:
  assumes "engineOk st" and "key \<in> activeKeys st"
  shows "\<exists>ob g. oscillatorsRef st key = Some ob \<and> gainsRef st key = Some g
           \<and> ob < length (oscNodes st) \<and> g < length (gainNodes st)"
proof -
  have "key \<in> dom (oscillatorsRef st)" "key \<in> dom (gainsRef st)"
    using assms by (simp_all add: engineOk_def registryOk_def)
  then obtain ob g where "oscillatorsRef st key = Some ob" "gainsRef st key = Some g"
    by blast
  moreover from this assms(1) have "ob < length (oscNodes st)" "g < length (gainNodes st)"
    by (auto simp: engineOk_def nodesOk_def ran_def)
  ultimately show ?thesis by blast
qed

lemma engineOk_buffer:
  assumes "engineOk st" and "audioContext st = Some cs"
  shows "\<exists>buf. dataArrayRef st = Some buf \<and> length buf = 128"
  using assms by (auto simp: engineOk_def buffersOk_def frequencyBinCount_def)

lemma engineOk_context:
  assumes "engineOk st" and "key \<in> activeKeys st"
  shows "\<exists>cs. audioContext st = Some cs"
  using assms by (auto simp: engineOk_def contextOk_def)

subsection \<open>Release and boost in the states the engine reaches\<close>

text \<open>
  Claim C2. For a recognized key with a registered voice, key-up appends a linear ramp
  to 0 ending 0.1 s later to the voice's gain and sets a timer of 100 ms; once 100 ms or
  more have passed, the oscillator is stopped and the key is gone from the oscillator
  map, the gain map and the set of active keys.
\<close>

theorem noteOff_releases_voice:
  assumes "engineOk st" and "getProp NOTES (toLowerCase ekey) = Own f"
    and "toLowerCase ekey \<in> activeKeys st" and "100 \<le> d"
  shows "\<exists>ob g. oscillatorsRef st (toLowerCase ekey) = Some ob
           \<and> gainsRef st (toLowerCase ekey) = Some g
           \<and> gain_events (gainNodes (handleKeyUp v st ekey) ! g)
               = gain_events (gainNodes st ! g) @ [LinearRampToValueAtTime 0 (currentTime st + 0.1)]
           \<and> timers (handleKeyUp v st ekey) = timers st @ [(clock st + 100, toLowerCase ekey)]
           \<and> oscillatorsRef (advance d (handleKeyUp v st ekey)) (toLowerCase ekey) = None
           \<and> gainsRef (advance d (handleKeyUp v st ekey)) (toLowerCase ekey) = None
           \<and> toLowerCase ekey \<notin> activeKeys (advance d (handleKeyUp v st ekey))
           \<and> osc_stopped (oscNodes (advance d (handleKeyUp v st ekey)) ! ob)"
proof -
  obtain ob g where voice: "oscillatorsRef st (toLowerCase ekey) = Some ob"
    "gainsRef st (toLowerCase ekey) = Some g" "ob < length (oscNodes st)" "g < length (gainNodes st)"
    using engineOk_voice [OF assms(1,3)] by blast
  obtain cs where cs: "audioContext st = Some cs"
    using engineOk_context [OF assms(1,3)] by blast
  from release_after_delay [OF assms(2) cs voice assms(4), of v] voice(1,2)
  show ?thesis by blast
qed

text \<open>
  Claim C10. In the revision with the boost, a key-down that starts a note writes 230
  into ten distinct slots of the analysis buffer, those at
  \<open>(floor(NOTES[k] % length) + i) % length\<close> for \<open>i\<close> from 0 to 9, leaves every other
  slot as it was and hands the buffer to \<open>onAudioProcess\<close>. The buffer has the 128 slots
  \<open>initAudio\<close> gave it.
\<close>

theorem noteOn_boosts_ten_slots:
  assumes "engineOk st" and "getProp NOTES (toLowerCase ekey) = Own f"
    and "audioContext st = Some cs" and "toLowerCase ekey \<notin> activeKeys st"
  shows "\<exists>s1 buf buf'. dataArrayRef st = Some buf \<and> length buf = 128
           \<and> handleKeyDown EngA st ekey = Inr s1 \<and> dataArrayRef s1 = Some buf'
           \<and> published s1 = Some buf' \<and> length buf' = length buf
           \<and> (\<forall>j < length buf. buf' ! j
                 = (if j \<in> (\<lambda>i. (boostIndex f (length buf) + i) mod length buf) ` {0..<10}
                    then 230 else buf ! j))
           \<and> card ((\<lambda>i. (boostIndex f (length buf) + i) mod length buf) ` {0..<10}) = 10
           \<and> boostIndex f (length buf) = nat \<lfloor>jsrem f (real (length buf))\<rfloor>"
proof -
  obtain buf where buf: "dataArrayRef st = Some buf" "length buf = 128"
    using engineOk_buffer [OF assms(1,3)] by blast
  then have "10 \<le> length buf" by simp
  from boost_ten_slots [OF assms(2,3,4) buf(1) this] buf
  show ?thesis by blast
qed

subsection \<open>The handlers on concrete engines\<close>

lemma lower_a: "toLowerCase ''a'' = ''a''"
  by (simp add: toLowerCase_def)

lemma note_a: "getProp NOTES ''a'' = Own 261.63"
  by (simp add: getProp_def NOTES_def)

lemma startedB_facts:
  "audioContext startedB = Some Running" "activeKeys startedB = {}"
  "oscillatorsRef startedB = Map.empty" "gainsRef startedB = Map.empty"
  "oscNodes startedB = []" "gainNodes startedB = []" "timers startedB = []" "clock startedB = 0"
  by (simp_all add: startedB_def mount_def handleFirstInteraction_def unmounted_def initAudio_def)

lemma engineOk_startedB: "engineOk startedB"
  unfolding startedB_def by (intro engineOk_handleFirstInteraction engineOk_mount)

lemma holdingA_facts:
  "handleKeyDown EngB startedB ''a'' = Inr holdingA"
  "audioContext holdingA = Some Running" "oscillatorsRef holdingA ''a'' = Some 0"
  "gainsRef holdingA ''a'' = Some 0" "''a'' \<in> activeKeys holdingA"
  "timers holdingA = []" "clock holdingA = 0"
proof -
  have n: "getProp NOTES (toLowerCase ''a'') = Own 261.63" by (simp add: lower_a note_a)
  have fresh: "toLowerCase ''a'' \<notin> activeKeys startedB" by (simp add: startedB_facts)
  from handleKeyDown_new [OF n startedB_facts(1) fresh, of EngB]
  obtain s1 where s1: "handleKeyDown EngB startedB ''a'' = Inr s1"
    "oscillatorsRef s1 = (oscillatorsRef startedB)(toLowerCase ''a'' \<mapsto> length (oscNodes startedB))"
    "gainsRef s1 = (gainsRef startedB)(toLowerCase ''a'' \<mapsto> length (gainNodes startedB))"
    "activeKeys s1 = insert (toLowerCase ''a'') (activeKeys startedB)"
    "audioContext s1 = Some Running" "timers s1 = timers startedB" "clock s1 = clock startedB"
    by blast
  have h: "holdingA = s1" by (simp add: holdingA_def s1(1))
  show "handleKeyDown EngB startedB ''a'' = Inr holdingA" by (simp add: h s1)
  show "audioContext holdingA = Some Running" by (simp add: h s1)
  show "oscillatorsRef holdingA ''a'' = Some 0" by (simp add: h s1 lower_a startedB_facts)
  show "gainsRef holdingA ''a'' = Some 0" by (simp add: h s1 lower_a startedB_facts)
  show "''a'' \<in> activeKeys holdingA" by (simp add: h s1 lower_a)
  show "timers holdingA = []" by (simp add: h s1 startedB_facts)
  show "clock holdingA = 0" by (simp add: h s1 startedB_facts)
qed

lemma engineOk_holdingA: "engineOk holdingA"
  using engineOk_startedB holdingA_facts(1) by (rule engineOk_handleKeyDown)


theorem noteOff_releases_voice_witness:
  "timers (handleKeyUp EngB holdingA ''a'') = [(100, ''a'')]
   \<and> oscillatorsRef (advance 100 (handleKeyUp EngB holdingA ''a'')) ''a'' = None
   \<and> gainsRef (advance 100 (handleKeyUp EngB holdingA ''a'')) ''a'' = None
   \<and> ''a'' \<notin> activeKeys (advance 100 (handleKeyUp EngB holdingA ''a''))
   \<and> osc_stopped (oscNodes (advance 100 (handleKeyUp EngB holdingA ''a'')) ! 0)"
proof -
  have n: "getProp NOTES (toLowerCase ''a'') = Own 261.63" by (simp add: lower_a note_a)
  have act: "toLowerCase ''a'' \<in> activeKeys holdingA" by (simp add: lower_a holdingA_facts)
  show ?thesis
    using noteOff_releases_voice [OF engineOk_holdingA n act order_refl, of EngB]
    by (auto simp: lower_a holdingA_facts)
qed

lemma startedA_facts:
  "audioContext startedA = Some Running" "activeKeys startedA = {}"
  "dataArrayRef startedA = Some (map (\<lambda>i. toUint8 (0 * 50)) [0..<frequencyBinCount])"
  by (simp_all add: startedA_def mount_def initAudio_def Let_def unmounted_def)

lemma engineOk_startedA: "engineOk startedA"
  unfolding startedA_def by (rule engineOk_mount)

theorem noteOn_boosts_ten_slots_witness:
  "\<exists>s1 buf'. handleKeyDown EngA startedA ''a'' = Inr s1 \<and> dataArrayRef s1 = Some buf'
       \<and> length buf' = 128 \<and> buf' ! 5 = 230 \<and> buf' ! 14 = 230 \<and> buf' ! 4 = 0 \<and> buf' ! 15 = 0"
proof -
  let ?buf = "map (\<lambda>i. toUint8 (0 * 50)) [0..<frequencyBinCount]"
  have n: "getProp NOTES (toLowerCase ''a'') = Own 261.63" by (simp add: lower_a note_a)
  have fr: "toLowerCase ''a'' \<notin> activeKeys startedA" by (simp add: startedA_facts)
  have len: "length ?buf = 128" by (simp add: frequencyBinCount_def)
  have idx: "boostIndex 261.63 128 = 5" by (simp add: boostIndex_def jsrem_def trunc_def)
  have img: "(\<lambda>i. (5 + i) mod 128) ` {0..<10::nat} = {5..<15}"
  proof -
    have "(\<lambda>i. (5 + i) mod 128) ` {0..<10::nat} = (\<lambda>i. 5 + i) ` {0..<10::nat}"
      by (rule image_cong) simp_all
    also have "\<dots> = {5..<15}" by (simp only: image_add_atLeastLessThan) simp
    finally show ?thesis .
  qed
  have zero: "?buf ! j = 0" if "j < 128" for j
    using that by (simp add: frequencyBinCount_def toUint8_def trunc_def)
  from noteOn_boosts_ten_slots [OF engineOk_startedA n startedA_facts(1) fr]
  obtain s1 buf buf' where r: "dataArrayRef startedA = Some buf"
    "handleKeyDown EngA startedA ''a'' = Inr s1" "dataArrayRef s1 = Some buf'"
    "length buf' = length buf"
    "\<forall>j < length buf. buf' ! j
        = (if j \<in> (\<lambda>i. (boostIndex 261.63 (length buf) + i) mod length buf) ` {0..<10}
           then 230 else buf ! j)"
    by blast
  have b: "buf = ?buf" using r(1) by (simp add: startedA_facts)
  have nth: "buf' ! j = (if j \<in> {5..<15} then 230 else 0)" if "j < 128" for j
    using r(5) that zero [OF that] unfolding b by (simp only: len idx img)
  have "buf' ! 5 = 230" "buf' ! 14 = 230" "buf' ! 4 = 0" "buf' ! 15 = 0"
    by (simp_all add: nth)
  then show ?thesis using r(2,3,4) len b by auto
qed

end
